theory Spec2Isabelle
  imports Complex_Main "HOL-Library.Multiset"
begin

section \<open>Multi-model OCR verification (scripts/ocr_verify.py)\<close>

text \<open>
  The development embeds the consensus pipeline of \<^verbatim>\<open>scripts/ocr_verify.py\<close>:
  \<^verbatim>\<open>tokenize\<close>, \<^verbatim>\<open>align_texts\<close>, \<^verbatim>\<open>calculate_consensus\<close>,
  \<^verbatim>\<open>OCRVerificationEngine.__init__\<close>, \<^verbatim>\<open>verify\<close>, \<^verbatim>\<open>_build_consensus\<close>
  and \<^verbatim>\<open>generate_report\<close>.

  Conventions.
  \<^item> A Python \<^verbatim>\<open>dict\<close> is an association list in insertion order (the order decides
    \<^verbatim>\<open>Counter.most_common\<close>, \<^verbatim>\<open>list(d.values())[0]\<close> and \<^verbatim>\<open>list(d.items())[0]\<close>).
  \<^item> Engine names, messages and agreement ratios are \<open>string\<close>s. The text an engine
    returns is a list of code points of an arbitrary type \<open>'c\<close>; what the interpreter
    knows about code points (\<^verbatim>\<open>str.lower\<close>, the class \<^verbatim>\<open>\w\<close>, the blank used by
    \<^verbatim>\<open>" ".join\<close>) is a parameter of type \<open>'c charset\<close>.
  \<^item> A Python \<^verbatim>\<open>float\<close> is a \<open>real\<close>: the quotient of two counts and its comparison
    with \<^verbatim>\<open>0.8\<close> are taken exactly (a modelling assumption; rounding cannot change the
    comparison unless a document has more than \<open>2 ^ 50\<close> positions). The builtin
    \<^verbatim>\<open>round(x, 4)\<close> is a parameter.
  \<^item> An exception is a value \<open>Inl e\<close> of a sum type.
  \<^item> Record fields carry a prefix (\<open>er_\<close>, \<open>wc_\<close>, \<open>rep_\<close>, \<open>st_\<close>) where two
    dataclasses or dicts of the source share a field name.
\<close>

subsection \<open>Exceptions, strings\<close>

text \<open>
  The exceptions that the embedded functions raise or pass on. \<open>OSError\<close> stands for
  \<^verbatim>\<open>OSError\<close> and its subclasses (\<^verbatim>\<open>PermissionError\<close> among them), with the message.
\<close>

datatype py_error =
  ValueError string | FileNotFoundError string | IndexError | OSError string

record 'c charset =
  str_lower :: "'c list \<Rightarrow> 'c list"
  re_w :: "'c \<Rightarrow> bool"
  chr_space :: 'c

text \<open>\<^verbatim>\<open>xs[0]\<close>: raises IndexError on an empty list.\<close>

definition index0 :: "'a list \<Rightarrow> py_error + 'a" where
  "index0 xs = (case xs of [] \<Rightarrow> Inl IndexError | x # _ \<Rightarrow> Inr x)"

text \<open>\<^verbatim>\<open>sep.join(xs)\<close>.\<close>

fun join :: "'a list \<Rightarrow> 'a list list \<Rightarrow> 'a list" where
  "join sep [] = []"
| "join sep [x] = x"
| "join sep (x # y # ys) = x @ sep @ join sep (y # ys)"

text \<open>\<^verbatim>\<open>str(n)\<close> for a non-negative integer, as the f-strings format it.\<close>

definition digit_char :: "nat \<Rightarrow> char" where
  "digit_char d = ''0123456789'' ! d"

fun str_nat :: "nat \<Rightarrow> string" where
  "str_nat n = (if n < 10 then [digit_char n] else str_nat (n div 10) @ [digit_char (n mod 10)])"

declare str_nat.simps [simp del]

subsection \<open>Data classes\<close>

record 'c engine_result =
  er_engine :: string
  er_text :: "'c list"
  er_confidence :: real
  er_error :: "string option"

definition success :: "'c engine_result \<Rightarrow> bool" where
  "success r = (er_error r = None)"

record 'c word_comparison =
  wc_position :: nat
  wc_readings :: "(string \<times> 'c list) list"
  wc_chosen :: "'c list option"
  wc_agreement :: string
  wc_confidence :: string
  wc_reason :: string

record 'c verification_result =
  source_file :: string
  models_used :: "string list"
  consensus_text :: "'c list"
  overall_confidence :: real
  total_words :: nat
  high_confidence_words :: nat
  medium_confidence_words :: nat
  low_confidence_words :: nat
  disagreements :: "'c word_comparison list"
  engine_results :: "(string \<times> 'c engine_result) list"

subsection \<open>Text alignment and comparison\<close>

text \<open>
  \<^verbatim>\<open>re.findall(r'\b\w+\b', s)\<close>: the matches are the maximal runs of word characters
  of \<open>s\<close>, from left to right. \<open>cur\<close> is the run being read.
\<close>

fun findall_words :: "('c \<Rightarrow> bool) \<Rightarrow> 'c list \<Rightarrow> 'c list \<Rightarrow> 'c list list" where
  "findall_words w cur [] = (if cur = [] then [] else [cur])"
| "findall_words w cur (c # cs) =
     (if w c then findall_words w (cur @ [c]) cs
      else if cur = [] then findall_words w [] cs
      else cur # findall_words w [] cs)"

definition tokenize :: "'c charset \<Rightarrow> 'c list \<Rightarrow> 'c list list" where
  "tokenize cs txt = findall_words (re_w cs) [] (str_lower cs txt)"

text \<open>\<^verbatim>\<open>max(len(words) for words in tokenized.values()) if tokenized else 0\<close>.\<close>

definition max_len :: "(string \<times> 'c list list) list \<Rightarrow> nat" where
  "max_len tokenized = foldr (\<lambda>(engine, ws) m. max (length ws) m) tokenized 0"

definition align_texts :: "'c charset \<Rightarrow> (string \<times> 'c list) list \<Rightarrow> (string \<times> 'c list) list list" where
  "align_texts cs texts =
     (let tokenized = map (\<lambda>(engine, txt). (engine, tokenize cs txt)) texts
      in map (\<lambda>i. map (\<lambda>(engine, ws). (engine, if i < length ws then ws ! i else [])) tokenized)
             [0 ..< max_len tokenized])"

text \<open>
  \<^verbatim>\<open>collections.Counter(xs)\<close>: the counts, in the order in which the elements are first
  met. \<^verbatim>\<open>most_common(1)\<close> is \<^verbatim>\<open>max\<close> over the items by count, which keeps the first of
  several maximal items, or the empty list for an empty counter.
\<close>

fun counter_add :: "'a \<Rightarrow> ('a \<times> nat) list \<Rightarrow> ('a \<times> nat) list" where
  "counter_add x [] = [(x, 1)]"
| "counter_add x ((y, n) # c) = (if x = y then (y, Suc n) # c else (y, n) # counter_add x c)"

definition Counter :: "'a list \<Rightarrow> ('a \<times> nat) list" where
  "Counter xs = foldl (\<lambda>c x. counter_add x c) [] xs"

fun max_by_count :: "('a \<times> nat) \<Rightarrow> ('a \<times> nat) list \<Rightarrow> ('a \<times> nat)" where
  "max_by_count best [] = best"
| "max_by_count best (p # ps) = max_by_count (if snd best < snd p then p else best) ps"

definition most_common1 :: "('a \<times> nat) list \<Rightarrow> ('a \<times> nat) list" where
  "most_common1 c = (case c of [] \<Rightarrow> [] | p # ps \<Rightarrow> [max_by_count p ps])"

definition ocr_engines :: "string set" where
  "ocr_engines = {''docai'', ''vision''}"

definition llm_engines :: "string set" where
  "llm_engines = {''claude'', ''gpt''}"

text \<open>
  \<^verbatim>\<open>calculate_consensus(readings)\<close> returns
  \<^verbatim>\<open>(chosen_word, agreement_ratio, confidence_level, reason)\<close>.
  \<^verbatim>\<open>len(set(votes.values()))\<close> is the length of the duplicate-free list of values.
\<close>

type_synonym 'c consensus = "'c list option \<times> string \<times> string \<times> string"

definition calculate_consensus :: "(string \<times> 'c list) list \<Rightarrow> py_error + 'c consensus" where
  "calculate_consensus readings =
    (let valid_readings = filter (\<lambda>(k, v). v \<noteq> []) readings in
     if valid_readings = [] then Inr (None, ''0/0'', ''low'', ''No readings'')
     else
      (let word_counts = Counter (map snd valid_readings);
           total = length valid_readings
       in case index0 (most_common1 word_counts) of
            Inl e \<Rightarrow> Inl e
          | Inr (chosen_word, cnt) \<Rightarrow>
             (let agreement = str_nat cnt @ ''/'' @ str_nat total in
              if cnt = total then
                Inr (Some chosen_word, agreement, ''high'',
                     ''All '' @ str_nat total @ '' models agree'')
              else if 3 \<le> cnt then
                (let agreeing = map fst (filter (\<lambda>(k, v). v = chosen_word) valid_readings)
                 in Inr (Some chosen_word, agreement, ''high'',
                         ''Majority agreement ('' @ join '', '' agreeing @ '')''))
              else if cnt = 2 \<and> 3 \<le> total then
                (let ocr_votes = filter (\<lambda>(k, v). k \<in> ocr_engines) valid_readings;
                     llm_votes = filter (\<lambda>(k, v). k \<in> llm_engines) valid_readings
                 in if length (remdups (map snd ocr_votes)) = 1 \<and> ocr_votes \<noteq> [] then
                      (case index0 (map snd ocr_votes) of
                         Inl e \<Rightarrow> Inl e
                       | Inr ocr_word \<Rightarrow>
                           Inr (Some ocr_word, agreement, ''medium'',
                                ''OCR engines agree, LLMs differ''))
                    else if length (remdups (map snd llm_votes)) = 1 \<and> llm_votes \<noteq> [] then
                      (case index0 (map snd llm_votes) of
                         Inl e \<Rightarrow> Inl e
                       | Inr llm_word \<Rightarrow>
                           if llm_word = chosen_word then
                             Inr (Some chosen_word, agreement, ''medium'',
                                  ''LLMs agree, OCR engines differ'')
                           else
                             Inr (Some chosen_word, agreement, ''medium'',
                                  ''Split vote - majority wins''))
                    else Inr (Some chosen_word, agreement, ''medium'',
                              ''Split vote - majority wins''))
              else Inr (None, agreement, ''low'',
                        ''No consensus - flagged for human review''))))"

subsection \<open>Verification engine\<close>

text \<open>
  The two kinds of client. \<^verbatim>\<open>VisionAPIClient.extract_text\<close> and
  \<^verbatim>\<open>DocumentAIClient.extract_text\<close> return an \<^verbatim>\<open>OCRResult\<close>, of which \<^verbatim>\<open>verify\<close> reads
  \<^verbatim>\<open>text\<close> and \<^verbatim>\<open>confidence\<close>, or raise (\<open>Inl\<close> carries \<^verbatim>\<open>str(e)\<close>).
  \<^verbatim>\<open>ClaudeVisionClient.extract_text\<close> and \<^verbatim>\<open>GPTVisionClient.extract_text\<close> catch
  every exception themselves and return an \<^verbatim>\<open>EngineResult\<close>. What the remote service
  answers is the function carried by the client.
\<close>

datatype 'c client =
    OcrClient "string \<Rightarrow> string + 'c list \<times> real"
  | LlmClient "string \<Rightarrow> 'c engine_result"

text \<open>
  \<^verbatim>\<open>OCRVerificationEngine.__init__\<close>: the value built is \<^verbatim>\<open>self.clients\<close>. The constructor
  binds the names vision and docai to OCR clients and claude and gpt to LLM clients.
\<close>

definition OCRVerificationEngine_init ::
  "(string \<Rightarrow> string + 'c list \<times> real) option \<Rightarrow> (string \<Rightarrow> string + 'c list \<times> real) option \<Rightarrow>
   (string \<Rightarrow> 'c engine_result) option \<Rightarrow> (string \<Rightarrow> 'c engine_result) option \<Rightarrow>
   string list option \<Rightarrow> py_error + (string \<times> 'c client) list" where
  "OCRVerificationEngine_init vision_client docai_client claude_client gpt_client enabled_engines =
    (let clients =
           (case vision_client of Some c \<Rightarrow> [(''vision'', OcrClient c)] | None \<Rightarrow> [])
         @ (case docai_client of Some c \<Rightarrow> [(''docai'', OcrClient c)] | None \<Rightarrow> [])
         @ (case claude_client of Some c \<Rightarrow> [(''claude'', LlmClient c)] | None \<Rightarrow> [])
         @ (case gpt_client of Some c \<Rightarrow> [(''gpt'', LlmClient c)] | None \<Rightarrow> []);
         clients =
           (case enabled_engines of
              None \<Rightarrow> clients
            | Some [] \<Rightarrow> clients
            | Some (e # es) \<Rightarrow> filter (\<lambda>(k, v). k \<in> set (e # es)) clients)
     in if clients = [] then Inl (ValueError ''At least one OCR engine must be configured'')
        else Inr clients)"

text \<open>
  The body of the loop over \<^verbatim>\<open>self.clients\<close> in \<^verbatim>\<open>verify\<close>. The source dispatches on
  the engine name: docai and vision are called inside \<^verbatim>\<open>try\<close>/\<^verbatim>\<open>except Exception\<close> and
  their \<^verbatim>\<open>OCRResult\<close> is copied into an \<^verbatim>\<open>EngineResult\<close>; the result of the other two is
  stored as it is. On the client lists that the constructor builds this is the dispatch
  on the kind of client written here.
\<close>

fun run_engine :: "string \<Rightarrow> 'c client \<Rightarrow> string \<Rightarrow> 'c engine_result" where
  "run_engine engine_name (OcrClient extract_text) image_path =
     (case extract_text image_path of
        Inr (t, c) \<Rightarrow> \<lparr>er_engine = engine_name, er_text = t, er_confidence = c, er_error = None\<rparr>
      | Inl e \<Rightarrow> \<lparr>er_engine = engine_name, er_text = [], er_confidence = 0, er_error = Some e\<rparr>)"
| "run_engine engine_name (LlmClient extract_text) image_path = extract_text image_path"

text \<open>
  The accumulators of the loop over the aligned rows in \<^verbatim>\<open>_build_consensus\<close>:
  \<^verbatim>\<open>consensus_words\<close>, \<^verbatim>\<open>disagreements\<close>, \<^verbatim>\<open>high_count\<close>, \<^verbatim>\<open>medium_count\<close>, \<^verbatim>\<open>low_count\<close>.
\<close>

record 'c tally =
  consensus_words :: "'c list list"
  acc_disagreements :: "'c word_comparison list"
  high_count :: nat
  medium_count :: nat
  low_count :: nat

text \<open>
  \<^verbatim>\<open>for engine in ["docai", "vision", "claude", "gpt"]: if engine in readings and
  readings[engine]: consensus_words.append(readings[engine]); break\<close>: the words appended.
\<close>

fun first_reading :: "string list \<Rightarrow> (string \<times> 'c list) list \<Rightarrow> 'c list list" where
  "first_reading [] readings = []"
| "first_reading (engine # rest) readings =
     (case map_of readings engine of
        Some w \<Rightarrow> if w \<noteq> [] then [w] else first_reading rest readings
      | None \<Rightarrow> first_reading rest readings)"

text \<open>\<^verbatim>\<open>unique_readings = set(v for v in readings.values() if v)\<close>, without duplicates.\<close>

definition unique_readings :: "(string \<times> 'c list) list \<Rightarrow> 'c list list" where
  "unique_readings readings = remdups (filter (\<lambda>v. v \<noteq> []) (map snd readings))"

definition consensus_step :: "nat \<Rightarrow> (string \<times> 'c list) list \<Rightarrow> 'c tally \<Rightarrow> py_error + 'c tally" where
  "consensus_step i readings t =
    (case calculate_consensus readings of
       Inl e \<Rightarrow> Inl e
     | Inr (chosen, agreement, confidence, reason) \<Rightarrow>
        (let t = (if confidence = ''high'' then t\<lparr>high_count := high_count t + 1\<rparr>
                  else if confidence = ''medium'' then t\<lparr>medium_count := medium_count t + 1\<rparr>
                  else t\<lparr>low_count := low_count t + 1\<rparr>);
             t = t\<lparr>consensus_words := consensus_words t @
                    (case chosen of
                       Some w \<Rightarrow> if w \<noteq> [] then [w]
                                 else first_reading [''docai'', ''vision'', ''claude'', ''gpt''] readings
                     | None \<Rightarrow> first_reading [''docai'', ''vision'', ''claude'', ''gpt''] readings)\<rparr>
         in Inr (if 1 < length (unique_readings readings) then
                   t\<lparr>acc_disagreements := acc_disagreements t @
                        [\<lparr>wc_position = i, wc_readings = readings, wc_chosen = chosen,
                          wc_agreement = agreement, wc_confidence = confidence,
                          wc_reason = reason\<rparr>]\<rparr>
                 else t)))"

text \<open>\<^verbatim>\<open>for i, readings in enumerate(aligned)\<close>, from index \<open>i\<close>.\<close>

fun consensus_loop :: "nat \<Rightarrow> (string \<times> 'c list) list list \<Rightarrow> 'c tally \<Rightarrow> py_error + 'c tally" where
  "consensus_loop i [] t = Inr t"
| "consensus_loop i (readings # rest) t =
     (case consensus_step i readings t of
        Inl e \<Rightarrow> Inl e
      | Inr t' \<Rightarrow> consensus_loop (Suc i) rest t')"

text \<open>\<^verbatim>\<open>OCRVerificationEngine._build_consensus\<close>.\<close>

definition build_consensus ::
  "'c charset \<Rightarrow> string \<Rightarrow> (string \<times> 'c engine_result) list \<Rightarrow> py_error + 'c verification_result" where
  "build_consensus cs source engine_res =
    (let successful = filter (\<lambda>(k, v). success v) engine_res in
     if successful = [] then
       Inr \<lparr>source_file = source, models_used = map fst engine_res, consensus_text = [],
            overall_confidence = 0, total_words = 0, high_confidence_words = 0,
            medium_confidence_words = 0, low_confidence_words = 0, disagreements = [],
            engine_results = engine_res\<rparr>
     else if length successful = 1 then
       (case index0 successful of
          Inl e \<Rightarrow> Inl e
        | Inr (engine, result) \<Rightarrow>
            Inr \<lparr>source_file = source, models_used = map fst engine_res,
                 consensus_text = er_text result, overall_confidence = er_confidence result,
                 total_words = length (tokenize cs (er_text result)), high_confidence_words = 0,
                 medium_confidence_words = 0,
                 low_confidence_words = length (tokenize cs (er_text result)),
                 disagreements = [], engine_results = engine_res\<rparr>)
     else
      (let texts = map (\<lambda>(k, v). (k, er_text v)) successful;
           aligned = align_texts cs texts
       in case consensus_loop 0 aligned
                 \<lparr>consensus_words = [], acc_disagreements = [], high_count = 0,
                  medium_count = 0, low_count = 0\<rparr> of
            Inl e \<Rightarrow> Inl e
          | Inr t \<Rightarrow>
             (let total = length aligned;
                  overall = (if 0 < total then real (high_count t) / real total else 0);
                  joined = join [chr_space cs] (consensus_words t);
                  final_text =
                    (if 0.8 < overall then
                       (case map_of successful ''docai'' of
                          Some r \<Rightarrow> er_text r
                        | None \<Rightarrow>
                           (case map_of successful ''vision'' of
                              Some r \<Rightarrow> er_text r
                            | None \<Rightarrow> joined))
                     else joined)
              in Inr \<lparr>source_file = source, models_used = map fst engine_res,
                      consensus_text = final_text, overall_confidence = overall,
                      total_words = total, high_confidence_words = high_count t,
                      medium_confidence_words = medium_count t,
                      low_confidence_words = low_count t,
                      disagreements = acc_disagreements t, engine_results = engine_res\<rparr>)))"

text \<open>
  \<^verbatim>\<open>OCRVerificationEngine.verify\<close>. \<open>path_exists\<close> is \<^verbatim>\<open>Path.exists\<close> as the file system
  answers it: \<^verbatim>\<open>True\<close>, \<^verbatim>\<open>False\<close>, or an exception (\<^verbatim>\<open>Path.exists\<close> returns \<^verbatim>\<open>False\<close> for
  a missing file and lets any other \<^verbatim>\<open>OSError\<close> of \<^verbatim>\<open>stat\<close> through, such as a name that
  is too long or a directory that may not be searched), which \<^verbatim>\<open>verify\<close> does not catch.
  The first component of the result lists the engines whose \<^verbatim>\<open>extract_text\<close> was
  called, in call order.
\<close>

definition verify ::
  "'c charset \<Rightarrow> (string \<Rightarrow> py_error + bool) \<Rightarrow> (string \<times> 'c client) list \<Rightarrow> string \<Rightarrow>
   string list \<times> (py_error + 'c verification_result)" where
  "verify cs path_exists clients image_path =
    (case path_exists image_path of
       Inl e \<Rightarrow> ([], Inl e)
     | Inr found \<Rightarrow>
        if \<not> found then
          ([], Inl (FileNotFoundError (''Image not found: '' @ image_path)))
        else
         (let engine_res =
                map (\<lambda>(engine_name, client).
                       (engine_name, run_engine engine_name client image_path))
                    clients
          in (map fst clients, build_consensus cs image_path engine_res)))"

subsection \<open>Report generation\<close>

record engine_status =
  st_success :: bool
  st_chars :: nat
  st_confidence :: real
  st_error :: "string option"

record 'c report =
  rep_source_file :: string
  rep_models_used :: "string list"
  rep_overall_confidence :: real
  rep_total_words :: nat
  rep_high_confidence :: nat
  rep_medium_confidence :: nat
  rep_low_confidence :: nat
  rep_disagreement_count :: nat
  rep_engine_status :: "(string \<times> engine_status) list"
  rep_disagreements :: "'c word_comparison list"

text \<open>
  \<^verbatim>\<open>generate_report\<close>. \<open>round4\<close> is the builtin \<^verbatim>\<open>round(x, 4)\<close>. An entry of
  \<^verbatim>\<open>"disagreements"\<close> is a dict with the six fields of a \<^verbatim>\<open>WordComparison\<close>.
\<close>

definition generate_report :: "(real \<Rightarrow> real) \<Rightarrow> 'c verification_result \<Rightarrow> 'c report" where
  "generate_report round4 result =
    \<lparr>rep_source_file = source_file result,
     rep_models_used = models_used result,
     rep_overall_confidence = round4 (overall_confidence result),
     rep_total_words = total_words result,
     rep_high_confidence = high_confidence_words result,
     rep_medium_confidence = medium_confidence_words result,
     rep_low_confidence = low_confidence_words result,
     rep_disagreement_count = length (disagreements result),
     rep_engine_status =
       map (\<lambda>(name, r). (name,
              \<lparr>st_success = success r,
               st_chars = (if success r then length (er_text r) else 0),
               st_confidence = round4 (er_confidence r),
               st_error = er_error r\<rparr>))
           (engine_results result),
     rep_disagreements =
       map (\<lambda>d. \<lparr>wc_position = wc_position d, wc_readings = wc_readings d,
                 wc_chosen = wc_chosen d, wc_agreement = wc_agreement d,
                 wc_confidence = wc_confidence d, wc_reason = wc_reason d\<rparr>)
           (take 50 (disagreements result))\<rparr>"

subsection \<open>ASCII code points\<close>

text \<open>
  The tables of the interpreter restricted to ASCII, for the concrete runs below:
  \<^verbatim>\<open>\w\<close> is \<^verbatim>\<open>[A-Za-z0-9_]\<close> and \<^verbatim>\<open>str.lower\<close> maps \<^verbatim>\<open>A-Z\<close> to \<^verbatim>\<open>a-z\<close>.
\<close>

definition ascii_lower :: "char \<Rightarrow> char" where
  "ascii_lower c =
     (case map_of (zip ''ABCDEFGHIJKLMNOPQRSTUVWXYZ'' ''abcdefghijklmnopqrstuvwxyz'') c of
        Some l \<Rightarrow> l
      | None \<Rightarrow> c)"

definition ascii_word :: "char \<Rightarrow> bool" where
  "ascii_word c =
     (c \<in> set ''abcdefghijklmnopqrstuvwxyzABCDEFGHIJKLMNOPQRSTUVWXYZ0123456789_'')"

definition ascii :: "char charset" where
  "ascii = \<lparr>str_lower = map ascii_lower, re_w = ascii_word, chr_space = CHR '' ''\<rparr>"

subsection \<open>Concrete runs\<close>

text \<open>Two engines, of which only the LLM answers, with the text \<^verbatim>\<open>ABC DEF\<close>.\<close>

definition abc_def_readings :: "(string \<times> char engine_result) list" where
  "abc_def_readings =
     [(''vision'', \<lparr>er_engine = ''vision'', er_text = [], er_confidence = 0,
                    er_error = Some ''HTTP Error 403: Forbidden''\<rparr>),
      (''claude'', \<lparr>er_engine = ''claude'', er_text = ''ABC DEF'', er_confidence = 0.9,
                    er_error = None\<rparr>)]"

text \<open>Three engines whose texts differ in case and punctuation only.\<close>

definition three_agree :: "(string \<times> char engine_result) list" where
  "three_agree =
     [(''vision'', \<lparr>er_engine = ''vision'', er_text = ''The cat'', er_confidence = 0.98,
                    er_error = None\<rparr>),
      (''docai'', \<lparr>er_engine = ''docai'', er_text = ''the cat.'', er_confidence = 0.95,
                   er_error = None\<rparr>),
      (''claude'', \<lparr>er_engine = ''claude'', er_text = ''THE CAT'', er_confidence = 0.9,
                    er_error = None\<rparr>)]"

text \<open>A blank page: two engines answer, neither text holds a word.\<close>

definition blank_page :: "(string \<times> char engine_result) list" where
  "blank_page =
     [(''vision'', \<lparr>er_engine = ''vision'', er_text = '''', er_confidence = 0,
                    er_error = None\<rparr>),
      (''claude'', \<lparr>er_engine = ''claude'', er_text = ''--'', er_confidence = 0.9,
                    er_error = None\<rparr>)]"

text \<open>Four engines; three read the same words, and docai ends the sentence with a stop.\<close>

definition near_identical :: "(string \<times> char engine_result) list" where
  "near_identical =
     [(''vision'', \<lparr>er_engine = ''vision'', er_text = ''The cat sat'', er_confidence = 0.98,
                    er_error = None\<rparr>),
      (''docai'', \<lparr>er_engine = ''docai'', er_text = ''The cat sat.'', er_confidence = 0.95,
                   er_error = None\<rparr>),
      (''claude'', \<lparr>er_engine = ''claude'', er_text = ''The cat sat!'', er_confidence = 0.9,
                    er_error = None\<rparr>),
      (''gpt'', \<lparr>er_engine = ''gpt'', er_text = ''A cat sat'', er_confidence = 0.9,
                 er_error = None\<rparr>)]"

text \<open>Two engines that disagree on each of 80 words.\<close>

definition eighty_disagreements :: "(string \<times> char engine_result) list" where
  "eighty_disagreements =
     [(''vision'', \<lparr>er_engine = ''vision'', er_text = concat (replicate 80 ''a ''),
                    er_confidence = 0.98, er_error = None\<rparr>),
      (''docai'', \<lparr>er_engine = ''docai'', er_text = concat (replicate 80 ''b ''),
                   er_confidence = 0.95, er_error = None\<rparr>)]"

subsection \<open>File types known to the adapters\<close>

text \<open>
  \<^verbatim>\<open>SUPPORTED_TYPES\<close> of \<^verbatim>\<open>scripts/ocr.py\<close>, which \<^verbatim>\<open>DocumentAIClient.extract_text\<close> looks
  the suffix up in (raising \<^verbatim>\<open>ValueError("Unsupported file type: ...")\<close> when absent), and
  the \<^verbatim>\<open>media_types\<close> of the two LLM clients, which fall back to \<^verbatim>\<open>image/jpeg\<close>.
  \<^verbatim>\<open>verify\<close> itself looks at neither.
\<close>

definition SUPPORTED_TYPES :: "(string \<times> string) list" where
  "SUPPORTED_TYPES =
     [(''.jpg'', ''image/jpeg''), (''.jpeg'', ''image/jpeg''), (''.png'', ''image/png''),
      (''.gif'', ''image/gif''), (''.webp'', ''image/webp''), (''.bmp'', ''image/bmp''),
      (''.tiff'', ''image/tiff''), (''.tif'', ''image/tiff''), (''.pdf'', ''application/pdf'')]"

definition media_types :: "(string \<times> string) list" where
  "media_types =
     [(''.jpg'', ''image/jpeg''), (''.jpeg'', ''image/jpeg''), (''.png'', ''image/png''),
      (''.gif'', ''image/gif''), (''.webp'', ''image/webp'')]"

text \<open>Two clients that both fail: the OCR client raises, the LLM client reports an error.\<close>

definition vision_forbidden :: "string \<Rightarrow> string + char list \<times> real" where
  "vision_forbidden image_path = Inl ''HTTP Error 403: Forbidden''"

definition claude_unauthorized :: "string \<Rightarrow> char engine_result" where
  "claude_unauthorized image_path =
     \<lparr>er_engine = ''claude'', er_text = [], er_confidence = 0,
      er_error = Some ''HTTP Error 401: Unauthorized''\<rparr>"

definition failing_clients :: "(string \<times> char client) list" where
  "failing_clients =
     [(''vision'', OcrClient vision_forbidden), (''claude'', LlmClient claude_unauthorized)]"

text \<open>
  Clients as they answer for a file \<^verbatim>\<open>scan.xyz\<close>: Document AI raises on the suffix, the
  LLM client sends the image as \<^verbatim>\<open>image/jpeg\<close> and gets a text back.
\<close>

definition docai_rejects_xyz :: "string \<Rightarrow> string + char list \<times> real" where
  "docai_rejects_xyz image_path = Inl ''Unsupported file type: .xyz''"

definition claude_reads_hello :: "string \<Rightarrow> char engine_result" where
  "claude_reads_hello image_path =
     \<lparr>er_engine = ''claude'', er_text = ''hello world'', er_confidence = 0.9,
      er_error = None\<rparr>"

definition xyz_clients :: "(string \<times> char client) list" where
  "xyz_clients =
     [(''docai'', OcrClient docai_rejects_xyz), (''claude'', LlmClient claude_reads_hello)]"

text \<open>
  A file system: two files that exist, and a directory that may not be searched, for which
  \<^verbatim>\<open>Path.exists\<close> raises \<^verbatim>\<open>PermissionError\<close>; nothing else exists.
\<close>

definition scan_dir :: "string \<Rightarrow> py_error + bool" where
  "scan_dir p =
     (if p = ''scan.xyz'' \<or> p = ''page.jpg'' then Inr True
      else if p = ''locked/page.jpg'' then Inl (OSError ''[Errno 13] Permission denied'')
      else Inr False)"

section \<open>Auxiliary facts\<close>

subsection \<open>Unfolding for concrete runs\<close>

lemmas consensus_eval =
  calculate_consensus_def Counter_def most_common1_def index0_def ocr_engines_def
  llm_engines_def str_nat.simps digit_char_def

lemmas ascii_eval = tokenize_def ascii_def ascii_lower_def ascii_word_def

lemmas build_eval =
  build_consensus_def success_def align_texts_def max_len_def consensus_step_def
  unique_readings_def Let_def upt_rec

subsection \<open>Tokens, counters\<close>

lemma findall_words_nonempty: "t \<in> set (findall_words w cur s) \<Longrightarrow> t \<noteq> []"
  by (induction s arbitrary: cur) (auto split: if_splits)

lemma tokenize_nonempty: "t \<in> set (tokenize cs txt) \<Longrightarrow> t \<noteq> []"
  unfolding tokenize_def by (rule findall_words_nonempty)

lemma Counter_snoc: "Counter (xs @ [x]) = counter_add x (Counter xs)"
  by (simp add: Counter_def)

lemma counter_add_keys:
  "map fst (counter_add x c) = (if x \<in> set (map fst c) then map fst c else map fst c @ [x])"
  by (induction c) (force split: if_splits)+

lemma counter_add_lookup:
  "map_of (counter_add x c) = (map_of c)(x \<mapsto> (case map_of c x of None \<Rightarrow> 1 | Some n \<Rightarrow> Suc n))"
  by (induction c) (auto simp: fun_eq_iff)

lemma Counter_distinct: "distinct (map fst (Counter xs))"
proof (induction xs rule: rev_induct)
  case Nil
  show ?case by (simp add: Counter_def)
next
  case (snoc x xs)
  then show ?case by (simp add: Counter_snoc counter_add_keys)
qed

lemma Counter_lookup:
  "map_of (Counter xs) w = (if w \<in> set xs then Some (count_list xs w) else None)"
proof (induction xs arbitrary: w rule: rev_induct)
  case Nil
  show ?case by (simp add: Counter_def)
next
  case (snoc x xs)
  then show ?case by (simp add: Counter_snoc counter_add_lookup)
qed

lemma Counter_member:
  assumes "(w, c) \<in> set (Counter xs)"
  shows "w \<in> set xs \<and> c = count_list xs w"
proof -
  have "map_of (Counter xs) w = Some c"
    using assms Counter_distinct[of xs] by simp
  then show ?thesis by (simp add: Counter_lookup split: if_splits)
qed

lemma Counter_keys: "set (map fst (Counter xs)) = set xs"
proof (induction xs rule: rev_induct)
  case Nil
  show ?case by (simp add: Counter_def)
next
  case (snoc x xs)
  then show ?case by (auto simp: Counter_snoc counter_add_keys)
qed

lemma max_by_count_member: "max_by_count p ps \<in> set (p # ps)"
  by (induction ps arbitrary: p) (auto split: if_splits)

lemma max_by_count_greatest: "q \<in> set (p # ps) \<Longrightarrow> snd q \<le> snd (max_by_count p ps)"
proof (induction ps arbitrary: p q)
  case Nil then show ?case by simp
next
  case (Cons a ps)
  have mono: "snd p' \<le> snd (max_by_count p' ps)" for p' using Cons.IH[of p' p'] by simp
  show ?case using Cons.prems Cons.IH[of q "if snd p < snd a then a else p"] mono[of "if snd p < snd a then a else p"]
    by (auto split: if_splits)
qed

lemma most_common_result:
  assumes "vs \<noteq> []"
  shows "\<exists>w. index0 (most_common1 (Counter vs)) = Inr (w, count_list vs w) \<and> w \<in> set vs
            \<and> (\<forall>v \<in> set vs. count_list vs v \<le> count_list vs w)"
proof -
  from assms have "set (map fst (Counter vs)) \<noteq> {}" unfolding Counter_keys by simp
  then obtain p ps where c: "Counter vs = p # ps" by (cases "Counter vs") auto
  obtain w n where m: "max_by_count p ps = (w, n)" by (cases "max_by_count p ps")
  have mem: "(w, n) \<in> set (Counter vs)" using max_by_count_member[of p ps] c m by simp
  have wn: "w \<in> set vs" "n = count_list vs w" using Counter_member[OF mem] by simp_all
  have "count_list vs v \<le> count_list vs w" if "v \<in> set vs" for v
  proof -
    have "map_of (Counter vs) v = Some (count_list vs v)" using that by (simp add: Counter_lookup)
    then have "(v, count_list vs v) \<in> set (p # ps)" using c by (metis map_of_SomeD)
    from max_by_count_greatest[OF this] m wn show ?thesis by simp
  qed
  then show ?thesis using c m wn by (auto simp: most_common1_def index0_def)
qed

lemma index0_map_snd: "xs \<noteq> [] \<Longrightarrow> index0 (map snd xs) = Inr (snd (hd xs))"
  by (cases xs) (auto simp: index0_def)

lemma calculate_consensus_returns: "\<exists>r. calculate_consensus readings = Inr r"
proof (cases "filter (\<lambda>(k, v). v \<noteq> []) readings = []")
  case True
  then show ?thesis by (simp add: calculate_consensus_def)
next
  case False
  then have "map snd (filter (\<lambda>(k, v). v \<noteq> []) readings) \<noteq> []" by simp
  from most_common_result[OF this] obtain w where
    "index0 (most_common1 (Counter (map snd (filter (\<lambda>(k, v). v \<noteq> []) readings)))) =
       Inr (w, count_list (map snd (filter (\<lambda>(k, v). v \<noteq> []) readings)) w)" by blast
  then show ?thesis using False
    by (simp add: calculate_consensus_def Let_def index0_map_snd)
qed

subsection \<open>Single rows\<close>

lemma count_list_distinct: "distinct xs \<Longrightarrow> x \<in> set xs \<Longrightarrow> count_list xs x = 1"
  by (induction xs) auto

lemma str_nat_digit: "n < 10 \<Longrightarrow> str_nat n = [digit_char n]"
  by (simp add: str_nat.simps)

lemma three_votes_cases:
  assumes "mset ys = {#a, b, c#}"
  shows "ys \<in> {[a, b, c], [a, c, b], [b, a, c], [b, c, a], [c, a, b], [c, b, a]}"
proof -
  have "length ys = 3" using mset_eq_length[of ys "[a, b, c]"] assms by simp
  then obtain p q r where ys: "ys = [p, q, r]"
    by (metis (no_types, opaque_lifting) length_0_conv length_Suc_conv numeral_3_eq_3)
  show ?thesis using assms unfolding ys
    by (auto simp: add_eq_conv_ex)
qed

lemma ocr_vote_wins:
  assumes "filter (\<lambda>(k, v). v \<noteq> []) readings = ys"
      and "map snd ys \<in> {[w, x, x], [x, w, x], [x, x, w]}"
      and "filter (\<lambda>(k, v). k \<in> ocr_engines) ys = [(ocr, w)]"
      and "w \<noteq> x"
  shows "calculate_consensus readings =
           Inr (Some w, ''2/3'', ''medium'', ''OCR engines agree, LLMs differ'')"
proof -
  have ne: "ys \<noteq> []" and len: "length ys = 3" using assms(2) by auto
  have mc: "index0 (most_common1 (Counter (map snd ys))) = Inr (x, 2)"
    using assms(2,4) by (auto simp: Counter_def most_common1_def index0_def)
  show ?thesis
    unfolding calculate_consensus_def assms(1) Let_def
    using ne len mc assms(3)
    by (simp add: index0_def str_nat.simps digit_char_def)
qed

lemma valid_reading_not_no_readings:
  assumes "filter (\<lambda>(k, v). v \<noteq> []) readings \<noteq> []"
  shows "calculate_consensus readings \<noteq> Inr (c, a, t, ''No readings'')"
proof -
  let ?vs = "map snd (filter (\<lambda>(k, v). v \<noteq> []) readings)"
  from assms have "?vs \<noteq> []" by simp
  from most_common_result[OF this] obtain w where
    "index0 (most_common1 (Counter ?vs)) = Inr (w, count_list ?vs w)" by blast
  then show ?thesis using assms
    by (simp add: calculate_consensus_def Let_def index0_map_snd)
qed

subsection \<open>Alignment\<close>

lemma max_len_reached:
  "i < max_len tokenized \<Longrightarrow> \<exists>(engine, ws) \<in> set tokenized. i < length ws"
  unfolding max_len_def by (induction tokenized) (auto simp: less_max_iff_disj split: prod.splits)

subsection \<open>The loop over the aligned rows\<close>

lemma consensus_step_returns: "\<exists>t'. consensus_step i readings t = Inr t'"
proof -
  obtain c a l r where "calculate_consensus readings = Inr (c, a, l, r)"
    using calculate_consensus_returns[of readings] by (metis prod_cases4)
  then show ?thesis by (simp add: consensus_step_def Let_def)
qed

lemma consensus_loop_returns: "\<exists>t'. consensus_loop i rows t = Inr t'"
proof (induction rows arbitrary: i t)
  case Nil
  show ?case by simp
next
  case (Cons readings rest)
  obtain t1 where "consensus_step i readings t = Inr t1"
    using consensus_step_returns by blast
  then show ?case using Cons.IH[of "Suc i" t1] by simp
qed

lemma consensus_step_disagreements:
  assumes "consensus_step i readings t = Inr t'"
  shows "map (\<lambda>d. (wc_position d, wc_readings d)) (acc_disagreements t') =
         map (\<lambda>d. (wc_position d, wc_readings d)) (acc_disagreements t) @
         (if 1 < length (unique_readings readings) then [(i, readings)] else [])"
  using assms
  by (auto simp: consensus_step_def Let_def split: sum.splits prod.splits if_splits)

lemma consensus_loop_disagreements:
  assumes "consensus_loop i rows t = Inr t'"
  shows "map (\<lambda>d. (wc_position d, wc_readings d)) (acc_disagreements t') =
         map (\<lambda>d. (wc_position d, wc_readings d)) (acc_disagreements t) @
         filter (\<lambda>(j, readings). 1 < length (unique_readings readings)) (enumerate i rows)"
  using assms
proof (induction rows arbitrary: i t)
  case Nil
  then show ?case by simp
next
  case (Cons readings rest)
  obtain t1 where s: "consensus_step i readings t = Inr t1"
    using consensus_step_returns by blast
  with Cons.prems have "consensus_loop (Suc i) rest t1 = Inr t'" by simp
  from Cons.IH[OF this] consensus_step_disagreements[OF s] show ?case by simp
qed

lemma build_consensus_returns: "\<exists>r. build_consensus cs source engine_res = Inr r"
proof -
  let ?s = "filter (\<lambda>(k, v). success v) engine_res"
  consider "?s = []" | "length ?s = 1" | "?s \<noteq> [] \<and> length ?s \<noteq> 1" by blast
  then show ?thesis
  proof cases
    case 1
    then show ?thesis by (simp add: build_consensus_def)
  next
    case 2
    then obtain k v where "?s = [(k, v)]"
      by (metis (no_types, lifting) One_nat_def length_0_conv length_Suc_conv surj_pair)
    then show ?thesis by (simp add: build_consensus_def index0_def)
  next
    case 3
    obtain t where "consensus_loop 0 (align_texts cs (map (\<lambda>(k, v). (k, er_text v)) ?s))
        \<lparr>consensus_words = [], acc_disagreements = [], high_count = 0,
                  medium_count = 0, low_count = 0\<rparr> = Inr t"
      using consensus_loop_returns by blast
    then show ?thesis using 3 by (simp add: build_consensus_def Let_def)
  qed
qed

text \<open>The voting branch of \<^verbatim>\<open>_build_consensus\<close>, in terms of the final accumulators.\<close>

lemma build_consensus_voting:
  assumes "successful = filter (\<lambda>(k, v). success v) engine_res"
      and "2 \<le> length successful"
      and "aligned = align_texts cs (map (\<lambda>(k, v). (k, er_text v)) successful)"
      and "consensus_loop 0 aligned
             \<lparr>consensus_words = [], acc_disagreements = [], high_count = 0,
              medium_count = 0, low_count = 0\<rparr> = Inr t"
  shows "build_consensus cs source engine_res =
           Inr \<lparr>source_file = source, models_used = map fst engine_res,
                consensus_text =
                  (if 0.8 < (if 0 < length aligned
                             then real (high_count t) / real (length aligned) else 0) then
                     (case map_of successful ''docai'' of
                        Some r \<Rightarrow> er_text r
                      | None \<Rightarrow>
                         (case map_of successful ''vision'' of
                            Some r \<Rightarrow> er_text r
                          | None \<Rightarrow> join [chr_space cs] (consensus_words t)))
                   else join [chr_space cs] (consensus_words t)),
                overall_confidence =
                  (if 0 < length aligned then real (high_count t) / real (length aligned)
                   else 0),
                total_words = length aligned, high_confidence_words = high_count t,
                medium_confidence_words = medium_count t,
                low_confidence_words = low_count t,
                disagreements = acc_disagreements t, engine_results = engine_res\<rparr>"
proof -
  have ne: "successful \<noteq> []" "length successful \<noteq> 1" using assms(2) by auto
  show ?thesis
    using assms(4) ne unfolding assms(1,3)
    by (simp add: build_consensus_def Let_def)
qed

text \<open>The three counters count the rows by the tier \<^verbatim>\<open>calculate_consensus\<close> gives them.\<close>

lemma consensus_step_counts:
  assumes "calculate_consensus readings = Inr (c, a, tier, why)"
  shows "\<exists>t'. consensus_step i readings t = Inr t' \<and>
              high_count t' = high_count t + (if tier = ''high'' then 1 else 0) \<and>
              medium_count t' = medium_count t + (if tier = ''medium'' then 1 else 0) \<and>
              low_count t' =
                low_count t + (if tier \<noteq> ''high'' \<and> tier \<noteq> ''medium'' then 1 else 0)"
  using assms by (simp add: consensus_step_def Let_def)

lemma consensus_loop_counts:
  assumes "consensus_loop i rows t = Inr t'"
  shows "high_count t' = high_count t +
           length (filter (\<lambda>row. \<exists>c a why. calculate_consensus row = Inr (c, a, ''high'', why))
                     rows) \<and>
         medium_count t' = medium_count t +
           length (filter (\<lambda>row. \<exists>c a why. calculate_consensus row = Inr (c, a, ''medium'', why))
                     rows) \<and>
         low_count t' = low_count t +
           length (filter (\<lambda>row. \<exists>c a tier why. calculate_consensus row = Inr (c, a, tier, why) \<and>
                                  tier \<noteq> ''high'' \<and> tier \<noteq> ''medium'') rows)"
  using assms
proof (induction rows arbitrary: i t)
  case Nil
  then show ?case by simp
next
  case (Cons readings rest)
  obtain c a tier why where cc: "calculate_consensus readings = Inr (c, a, tier, why)"
    using calculate_consensus_returns[of readings] by (metis prod_cases4)
  from consensus_step_counts[OF cc, of i t] obtain t1 where
    s: "consensus_step i readings t = Inr t1"
    and h: "high_count t1 = high_count t + (if tier = ''high'' then 1 else 0)"
    and m: "medium_count t1 = medium_count t + (if tier = ''medium'' then 1 else 0)"
    and l: "low_count t1 =
              low_count t + (if tier \<noteq> ''high'' \<and> tier \<noteq> ''medium'' then 1 else 0)"
    by blast
  from Cons.prems s have "consensus_loop (Suc i) rest t1 = Inr t'" by simp
  from Cons.IH[OF this] h m l cc show ?case by simp
qed

subsection \<open>Unanimous rows\<close>

lemma count_list_all_equal: "\<forall>x \<in> set xs. x = w \<Longrightarrow> count_list xs w = length xs"
  by (induction xs) auto

lemma unanimous_row:
  assumes "readings \<noteq> []" and "\<forall>(k, v) \<in> set readings. v = w" and "w \<noteq> []"
  shows "calculate_consensus readings =
           Inr (Some w, str_nat (length readings) @ ''/'' @ str_nat (length readings), ''high'',
                ''All '' @ str_nat (length readings) @ '' models agree'')"
proof -
  have v: "filter (\<lambda>(k, v). v \<noteq> []) readings = readings"
    using assms(2,3) by (auto simp: filter_id_conv)
  have ne: "map snd readings \<noteq> []" using assms(1) by simp
  have all: "\<forall>x \<in> set (map snd readings). x = w" using assms(2) by auto
  from most_common_result[OF ne] obtain w' where
    w': "index0 (most_common1 (Counter (map snd readings))) =
           Inr (w', count_list (map snd readings) w')" "w' \<in> set (map snd readings)"
    by blast
  from w'(2) all have "w' = w" by blast
  with w'(1) count_list_all_equal[OF all]
  have "index0 (most_common1 (Counter (map snd readings))) = Inr (w, length readings)" by simp
  then show ?thesis using assms(1)
    by (simp add: calculate_consensus_def v Let_def)
qed

lemma consensus_loop_all_high:
  assumes "\<forall>row \<in> set rows. \<exists>c a r. calculate_consensus row = Inr (c, a, ''high'', r)"
  shows "\<exists>t'. consensus_loop i rows t = Inr t' \<and> high_count t' = high_count t + length rows \<and>
              medium_count t' = medium_count t \<and> low_count t' = low_count t"
  using assms
proof (induction rows arbitrary: i t)
  case Nil
  show ?case by simp
next
  case (Cons readings rest)
  from Cons.prems obtain c a r where cc: "calculate_consensus readings = Inr (c, a, ''high'', r)"
    by auto
  then obtain t1 where s: "consensus_step i readings t = Inr t1"
    and h: "high_count t1 = high_count t + 1" "medium_count t1 = medium_count t"
           "low_count t1 = low_count t"
    by (simp add: consensus_step_def Let_def)
  from Cons.IH[of "Suc i" t1] Cons.prems obtain t' where
    "consensus_loop (Suc i) rest t1 = Inr t'" "high_count t' = high_count t1 + length rest"
    "medium_count t' = medium_count t1" "low_count t' = low_count t1" by auto
  with s h show ?case by simp
qed

lemma max_len_constant:
  "max_len (map (\<lambda>(k, v). (k, toks)) texts) = (if texts = [] then 0 else length toks)"
  unfolding max_len_def by (induction texts) (auto split: prod.splits)

lemma align_identical:
  assumes "texts \<noteq> []" and "\<forall>(k, v) \<in> set texts. tokenize cs v = toks"
  shows "align_texts cs texts = map (\<lambda>i. map (\<lambda>(k, v). (k, toks ! i)) texts) [0 ..< length toks]"
proof -
  have tk: "map (\<lambda>(engine, s). (engine, tokenize cs s)) texts = map (\<lambda>(k, v). (k, toks)) texts"
    using assms(2) by (auto intro!: map_cong)
  show ?thesis
    unfolding align_texts_def Let_def tk max_len_constant using assms(1)
    by (auto simp: comp_def split: prod.splits)
qed

subsection \<open>Disagreements and the report\<close>

lemma enumerate_filter_positions_sorted:
  "sorted_wrt (<) (map fst (filter P (enumerate n xs)))"
proof -
  have "sorted_wrt (\<lambda>x y. fst x < fst y) (enumerate n xs)"
    using sorted_wrt_map[of "(<)" fst "enumerate n xs"] by simp
  then have "sorted_wrt (\<lambda>x y. fst x < fst y) (filter P (enumerate n xs))"
    by (rule sorted_wrt_filter)
  then show ?thesis by (simp add: sorted_wrt_map)
qed

lemma word_comparison_copy:
  "\<lparr>wc_position = wc_position d, wc_readings = wc_readings d, wc_chosen = wc_chosen d,
    wc_agreement = wc_agreement d, wc_confidence = wc_confidence d,
    wc_reason = wc_reason d\<rparr> = (d :: 'c word_comparison)"
  by (cases d) simp

lemma report_disagreements:
  "rep_disagreements (generate_report round4 r) = take 50 (disagreements r)"
  by (simp add: generate_report_def word_comparison_copy)

lemma near_identical_result:
  "build_consensus ascii ''page.jpg'' near_identical =
     Inr \<lparr>source_file = ''page.jpg'', models_used = [''vision'', ''docai'', ''claude'', ''gpt''],
          consensus_text = ''The cat sat.'', overall_confidence = 1, total_words = 3,
          high_confidence_words = 3, medium_confidence_words = 0, low_confidence_words = 0,
          disagreements =
            [\<lparr>wc_position = 0,
              wc_readings = [(''vision'', ''the''), (''docai'', ''the''), (''claude'', ''the''),
                             (''gpt'', ''a'')],
              wc_chosen = Some ''the'', wc_agreement = ''3/4'', wc_confidence = ''high'',
              wc_reason = ''Majority agreement (vision, docai, claude)''\<rparr>],
          engine_results = near_identical\<rparr>"
  by (simp add: near_identical_def build_eval ascii_eval consensus_eval)

subsection \<open>The engine and the fields that every branch copies\<close>

lemmas clients_eval =
  failing_clients_def xyz_clients_def vision_forbidden_def claude_unauthorized_def
  docai_rejects_xyz_def claude_reads_hello_def

lemma init_nonempty:
  "OCRVerificationEngine_init vision_client docai_client claude_client gpt_client
     enabled_engines = Inr clients \<Longrightarrow> clients \<noteq> []"
  by (auto simp: OCRVerificationEngine_init_def Let_def split: if_splits)

lemma run_all_names:
  "map fst (map (\<lambda>(engine_name, client). (engine_name, run_engine engine_name client image_path))
              clients) = map fst clients"
  by (induction clients) auto

lemma build_consensus_frame:
  assumes "build_consensus cs source engine_res = Inr r"
  shows "source_file r = source \<and> models_used r = map fst engine_res \<and>
         engine_results r = engine_res"
proof -
  let ?s = "filter (\<lambda>(k, v). success v) engine_res"
  consider "?s = []" | "length ?s = 1" | "2 \<le> length ?s"
    by (cases ?s) (auto simp: Suc_le_eq)
  then show ?thesis
  proof cases
    case 1
    then show ?thesis using assms by (auto simp: build_consensus_def)
  next
    case 2
    then obtain k v where "?s = [(k, v)]"
      by (metis (no_types, lifting) One_nat_def length_0_conv length_Suc_conv surj_pair)
    then show ?thesis using assms by (auto simp: build_consensus_def index0_def)
  next
    case 3
    obtain t where t: "consensus_loop 0 (align_texts cs (map (\<lambda>(k, v). (k, er_text v)) ?s))
               \<lparr>consensus_words = [], acc_disagreements = [], high_count = 0,
                medium_count = 0, low_count = 0\<rparr> = Inr t"
      using consensus_loop_returns by blast
    show ?thesis
      using assms unfolding build_consensus_voting[OF refl 3 refl t] by auto
  qed
qed

section \<open>The claims\<close>

text \<open>
  C1. When exactly one engine result is successful, \<^verbatim>\<open>_build_consensus\<close> returns that
  result's text verbatim as consensus text and its confidence as overall confidence;
  the high and medium counts are 0 and the low count (and the total) is the number of
  tokens of the text.
\<close>

theorem single_success_fallback:
  assumes "filter (\<lambda>(k, v). success v) engine_res = [(engine, result)]"
  shows "build_consensus cs source engine_res =
           Inr \<lparr>source_file = source, models_used = map fst engine_res,
                consensus_text = er_text result, overall_confidence = er_confidence result,
                total_words = length (tokenize cs (er_text result)),
                high_confidence_words = 0, medium_confidence_words = 0,
                low_confidence_words = length (tokenize cs (er_text result)),
                disagreements = [], engine_results = engine_res\<rparr>"
  using assms by (simp add: build_consensus_def index0_def)

theorem single_success_fallback_witness:
  "filter (\<lambda>(k, v). success v) abc_def_readings =
     [(''claude'', \<lparr>er_engine = ''claude'', er_text = ''ABC DEF'', er_confidence = 0.9,
                    er_error = None\<rparr>)] \<and>
   build_consensus ascii ''page.jpg'' abc_def_readings =
     Inr \<lparr>source_file = ''page.jpg'', models_used = [''vision'', ''claude''],
          consensus_text = ''ABC DEF'', overall_confidence = 0.9,
          total_words = 2, high_confidence_words = 0, medium_confidence_words = 0,
          low_confidence_words = 2, disagreements = [],
          engine_results = abc_def_readings\<rparr>"
proof -
  have f: "filter (\<lambda>(k, v). success v) abc_def_readings =
     [(''claude'', \<lparr>er_engine = ''claude'', er_text = ''ABC DEF'', er_confidence = 0.9,
                    er_error = None\<rparr>)]"
    by (simp add: abc_def_readings_def success_def)
  have t: "tokenize ascii ''ABC DEF'' = [''abc'', ''def'']"
    by (simp add: ascii_eval)
  have m: "map fst abc_def_readings = [''vision'', ''claude'']"
    by (simp add: abc_def_readings_def)
  show ?thesis
    using single_success_fallback [OF f, of ascii "''page.jpg''"] f t m by simp
qed

text \<open>
  C5. The row \<^verbatim>\<open>{docai: "the", vision: "the", claude: "teh", gpt: "teh"}\<close>, a 2/2 split
  along the engine classes, is decided as medium with the word of the OCR engines and
  the reason \<^verbatim>\<open>OCR engines agree, LLMs differ\<close>.
\<close>

theorem tie_break_ocr_agree:
  "calculate_consensus
     [(''docai'', ''the''), (''vision'', ''the''), (''claude'', ''teh''), (''gpt'', ''teh'')] =
   Inr (Some ''the'', ''2/4'', ''medium'', ''OCR engines agree, LLMs differ'')"
  by (simp add: consensus_eval)

text \<open>
  C8 (as amended). A row with at least two non-empty readings, all for distinct words, is
  decided with no chosen word, agreement \<open>1/n\<close>, tier low and the reason
  \<^verbatim>\<open>No consensus - flagged for human review\<close>.
\<close>

theorem all_distinct_votes_low:
  assumes "valid = filter (\<lambda>(k, v). v \<noteq> []) readings"
      and "distinct (map snd valid)"
      and "2 \<le> length valid"
  shows "calculate_consensus readings =
           Inr (None, ''1/'' @ str_nat (length valid), ''low'',
                ''No consensus - flagged for human review'')"
proof -
  from assms(3) have ne: "map snd valid \<noteq> []" by auto
  from most_common_result[OF ne] obtain w where
    w: "index0 (most_common1 (Counter (map snd valid))) = Inr (w, count_list (map snd valid) w)"
       "w \<in> set (map snd valid)" by blast
  have c: "count_list (map snd valid) w = 1"
    using count_list_distinct[OF assms(2) w(2)] .
  have v: "valid \<noteq> []" using ne by simp
  show ?thesis
    using w(1) c v assms(3) unfolding assms(1)
    by (simp add: calculate_consensus_def Let_def str_nat_digit digit_char_def)
qed

theorem all_distinct_votes_low_witness:
  "distinct (map snd (filter (\<lambda>(k, v). v \<noteq> [])
       [(''docai'', ''cat''), (''vision'', ''''), (''claude'', ''cot''), (''gpt'', ''cut'')])) \<and>
   calculate_consensus
       [(''docai'', ''cat''), (''vision'', ''''), (''claude'', ''cot''), (''gpt'', ''cut'')] =
     Inr (None, ''1/3'', ''low'', ''No consensus - flagged for human review'')"
  using all_distinct_votes_low
    [of "filter (\<lambda>(k, v). v \<noteq> [])
          [(''docai'', ''cat''), (''vision'', ''''), (''claude'', ''cot''), (''gpt'', ''cut'')]"
        "[(''docai'', ''cat''), (''vision'', ''''), (''claude'', ''cot''), (''gpt'', ''cut'')]"]
  by (simp add: str_nat_digit digit_char_def)

text \<open>
  C8 as stated fails for a row with exactly one non-empty reading: its single vote has
  count 1 of 1, no word reaches count 2, and the row is decided high with that word.
\<close>

theorem single_vote_is_high:
  "calculate_consensus [(''docai'', ''cat''), (''vision'', '''')] =
     Inr (Some ''cat'', ''1/1'', ''high'', ''All 1 models agree'')"
  by (simp add: consensus_eval)

text \<open>
  C9. When the non-empty readings of a row are one OCR engine's word and the same,
  different word from both claude and gpt, in any order, the chosen word is the OCR
  engine's, with agreement 2/3, tier medium and the reason
  \<^verbatim>\<open>OCR engines agree, LLMs differ\<close>.
\<close>

theorem single_ocr_overrides_llm_pair:
  assumes "mset (filter (\<lambda>(k, v). v \<noteq> []) readings) = {#(ocr, w), (''claude'', x), (''gpt'', x)#}"
      and "ocr = ''docai'' \<or> ocr = ''vision''"
      and "w \<noteq> x"
  shows "calculate_consensus readings =
           Inr (Some w, ''2/3'', ''medium'', ''OCR engines agree, LLMs differ'')"
proof -
  define ys where "ys = filter (\<lambda>(k, v). v \<noteq> []) readings"
  have c: "''claude'' \<notin> ocr_engines" "''gpt'' \<notin> ocr_engines" "ocr \<in> ocr_engines"
    using assms(2) by (auto simp: ocr_engines_def)
  have "mset ys = {#(ocr, w), (''claude'', x), (''gpt'', x)#}"
    using assms(1) by (simp add: ys_def)
  from three_votes_cases[OF this]
  have "map snd ys \<in> {[w, x, x], [x, w, x], [x, x, w]} \<and>
        filter (\<lambda>(k, v). k \<in> ocr_engines) ys = [(ocr, w)]"
    using c by auto
  then have m: "map snd ys \<in> {[w, x, x], [x, w, x], [x, x, w]}"
    and f: "filter (\<lambda>(k, v). k \<in> ocr_engines) ys = [(ocr, w)]"
    by simp_all
  show ?thesis
    by (rule ocr_vote_wins[OF ys_def[symmetric] m f assms(3)])
qed

theorem single_ocr_overrides_llm_pair_witness:
  "mset (filter (\<lambda>(k, v). v \<noteq> [])
          [(''vision'', ''cat''), (''docai'', ''''), (''claude'', ''cot''), (''gpt'', ''cot'')]) =
     {#(''vision'', ''cat''), (''claude'', ''cot''), (''gpt'', ''cot'')#} \<and>
   calculate_consensus
     [(''vision'', ''cat''), (''docai'', ''''), (''claude'', ''cot''), (''gpt'', ''cot'')] =
     Inr (Some ''cat'', ''2/3'', ''medium'', ''OCR engines agree, LLMs differ'')"
  using single_ocr_overrides_llm_pair
    [of "[(''vision'', ''cat''), (''docai'', ''''), (''claude'', ''cot''), (''gpt'', ''cot'')]"
        "''vision''" "''cat''" "''cot''"]
  by simp

text \<open>
  C10. Every row that \<^verbatim>\<open>align_texts\<close> returns has an engine with a non-empty token, so
  \<^verbatim>\<open>calculate_consensus\<close> does not take its \<^verbatim>\<open>No readings\<close> branch on it and never
  returns that reason for it.
\<close>

theorem aligned_rows_have_reading:
  assumes "row \<in> set (align_texts cs texts)"
  shows "filter (\<lambda>(k, v). v \<noteq> []) row \<noteq> [] \<and>
         (\<forall>c a t. calculate_consensus row \<noteq> Inr (c, a, t, ''No readings''))"
proof -
  define tokenized where "tokenized = map (\<lambda>(engine, txt). (engine, tokenize cs txt)) texts"
  from assms obtain i where i: "i < max_len tokenized"
    and row: "row = map (\<lambda>(engine, ws). (engine, if i < length ws then ws ! i else [])) tokenized"
    by (auto simp: align_texts_def tokenized_def Let_def)
  from max_len_reached[OF i] obtain engine ws where
    ews: "(engine, ws) \<in> set tokenized" "i < length ws" by auto
  from ews(1) obtain s where "ws = tokenize cs s" by (auto simp: tokenized_def)
  with ews(2) have "ws ! i \<noteq> []" using tokenize_nonempty[of "ws ! i" cs s] by simp
  moreover have "(engine, ws ! i) \<in> set row" using ews unfolding row by force
  ultimately have "filter (\<lambda>(k, v). v \<noteq> []) row \<noteq> []"
    by (auto simp: filter_empty_conv)
  then show ?thesis using valid_reading_not_no_readings by blast
qed

theorem aligned_rows_have_reading_witness:
  "align_texts ascii [(''docai'', ''The cat''), (''claude'', ''the'')] =
     [[(''docai'', ''the''), (''claude'', ''the'')], [(''docai'', ''cat''), (''claude'', '''')]] \<and>
   filter (\<lambda>(k, v). v \<noteq> []) [(''docai'', ''cat''), (''claude'', '''')] \<noteq> [] \<and>
   calculate_consensus [(''docai'', ''cat''), (''claude'', '''')] \<noteq> Inr (None, ''0/0'', ''low'', ''No readings'')"
proof -
  have a: "align_texts ascii [(''docai'', ''The cat''), (''claude'', ''the'')] =
     [[(''docai'', ''the''), (''claude'', ''the'')], [(''docai'', ''cat''), (''claude'', '''')]]"
    by (simp add: align_texts_def max_len_def ascii_eval upt_rec)
  have "[(''docai'', ''cat''), (''claude'', '''')] \<in> set (align_texts ascii [(''docai'', ''The cat''), (''claude'', ''the'')])"
    unfolding a by simp
  from aligned_rows_have_reading[OF this] a show ?thesis by blast
qed

text \<open>
  C2. With at least two successful readings, \<^verbatim>\<open>_build_consensus\<close> returns a result whose
  total is the number of aligned rows, whose high count is the number of rows that
  \<^verbatim>\<open>calculate_consensus\<close> decides high, and whose overall confidence is the high count
  divided by the total (0 without rows); when that confidence exceeds 0.8 the consensus
  text is the raw text of docai if docai succeeded, and else the raw text of vision if
  vision succeeded.
\<close>

theorem trusted_engine_override:
  assumes "successful = filter (\<lambda>(k, v). success v) engine_res"
      and "2 \<le> length successful"
      and "aligned = align_texts cs (map (\<lambda>(k, v). (k, er_text v)) successful)"
  shows "\<exists>r. build_consensus cs source engine_res = Inr r \<and>
             total_words r = length aligned \<and>
             high_confidence_words r =
               length (filter (\<lambda>row. \<exists>c a why. calculate_consensus row = Inr (c, a, ''high'', why))
                         aligned) \<and>
             overall_confidence r =
               (if 0 < total_words r then real (high_confidence_words r) / real (total_words r)
                else 0) \<and>
             (\<forall>d. 0.8 < overall_confidence r \<and> map_of successful ''docai'' = Some d \<longrightarrow>
                    consensus_text r = er_text d) \<and>
             (\<forall>v. 0.8 < overall_confidence r \<and> map_of successful ''docai'' = None \<and>
                    map_of successful ''vision'' = Some v \<longrightarrow> consensus_text r = er_text v)"
proof -
  obtain t where t: "consensus_loop 0 aligned
               \<lparr>consensus_words = [], acc_disagreements = [], high_count = 0,
                medium_count = 0, low_count = 0\<rparr> = Inr t"
    using consensus_loop_returns by blast
  have h: "high_count t =
             length (filter (\<lambda>row. \<exists>c a why. calculate_consensus row = Inr (c, a, ''high'', why))
                       aligned)"
    using consensus_loop_counts[OF t] by simp
  show ?thesis
    unfolding build_consensus_voting[OF assms t] by (simp add: h)
qed

theorem trusted_engine_override_witness:
  "2 \<le> length (filter (\<lambda>(k, v). success v) near_identical) \<and>
   map_of (filter (\<lambda>(k, v). success v) near_identical) ''docai'' =
     Some \<lparr>er_engine = ''docai'', er_text = ''The cat sat.'', er_confidence = 0.95,
           er_error = None\<rparr> \<and>
   (\<exists>r. build_consensus ascii ''page.jpg'' near_identical = Inr r \<and>
        total_words r = 3 \<and> high_confidence_words r = 3 \<and>
        0.8 < overall_confidence r \<and> consensus_text r = ''The cat sat.'')"
proof -
  have l: "2 \<le> length (filter (\<lambda>(k, v). success v) near_identical)"
    by (simp add: near_identical_def success_def)
  have d: "map_of (filter (\<lambda>(k, v). success v) near_identical) ''docai'' =
     Some \<lparr>er_engine = ''docai'', er_text = ''The cat sat.'', er_confidence = 0.95,
           er_error = None\<rparr>"
    by (simp add: near_identical_def success_def)
  from trusted_engine_override[OF refl l refl, of ascii "''page.jpg''"] obtain r where
    r: "build_consensus ascii ''page.jpg'' near_identical = Inr r"
    and o: "\<forall>d. 0.8 < overall_confidence r \<and>
                 map_of (filter (\<lambda>(k, v). success v) near_identical) ''docai'' = Some d \<longrightarrow>
                 consensus_text r = er_text d"
    by blast
  have c: "0.8 < overall_confidence r" "total_words r = 3" "high_confidence_words r = 3"
    using r unfolding near_identical_result by auto
  with o d have "consensus_text r = ''The cat sat.''" by auto
  with l d r c show ?thesis by blast
qed

text \<open>
  C4 (as amended). The \<^verbatim>\<open>disagreements\<close> of a verification result are the positions, in
  ascending order and with their rows, at which more than one distinct non-empty token
  was read; the list is not capped (it is empty when fewer than two readings succeeded).
  The cap is in \<^verbatim>\<open>generate_report\<close>: the report's \<^verbatim>\<open>disagreements\<close> are the first 50 of
  them, and its \<^verbatim>\<open>disagreement_count\<close> is the uncapped number.
\<close>

theorem disagreements_and_report_cap:
  assumes "successful = filter (\<lambda>(k, v). success v) engine_res"
      and "aligned = align_texts cs (map (\<lambda>(k, v). (k, er_text v)) successful)"
  shows "\<exists>r. build_consensus cs source engine_res = Inr r \<and>
           map (\<lambda>d. (wc_position d, wc_readings d)) (disagreements r) =
             (if 2 \<le> length successful then
                filter (\<lambda>(i, readings). 1 < length (unique_readings readings)) (enumerate 0 aligned)
              else []) \<and>
           sorted_wrt (<) (map wc_position (disagreements r)) \<and>
           rep_disagreements (generate_report round4 r) = take 50 (disagreements r) \<and>
           rep_disagreement_count (generate_report round4 r) = length (disagreements r) \<and>
           length (rep_disagreements (generate_report round4 r)) =
             min 50 (length (disagreements r))"
proof -
  have rep: "rep_disagreements (generate_report round4 r) = take 50 (disagreements r) \<and>
           rep_disagreement_count (generate_report round4 r) = length (disagreements r) \<and>
           length (rep_disagreements (generate_report round4 r)) =
             min 50 (length (disagreements r))" for r :: "'a verification_result"
    by (simp add: report_disagreements) (simp add: generate_report_def)
  consider "successful = []" | "length successful = 1" | "2 \<le> length successful"
    by (cases successful) (auto simp: Suc_le_eq)
  then show ?thesis
  proof cases
    case 1
    then have "build_consensus cs source engine_res =
       Inr \<lparr>source_file = source, models_used = map fst engine_res, consensus_text = [],
            overall_confidence = 0, total_words = 0, high_confidence_words = 0,
            medium_confidence_words = 0, low_confidence_words = 0, disagreements = [],
            engine_results = engine_res\<rparr>"
      unfolding assms(1) by (simp add: build_consensus_def)
    then show ?thesis using 1 rep by simp
  next
    case 2
    then obtain k v where kv: "successful = [(k, v)]"
      by (metis (no_types, lifting) One_nat_def length_0_conv length_Suc_conv surj_pair)
    have "\<exists>r. build_consensus cs source engine_res = Inr r \<and> disagreements r = []"
      using kv unfolding assms(1) by (simp add: build_consensus_def index0_def)
    then obtain r where "build_consensus cs source engine_res = Inr r" "disagreements r = []"
      by blast
    then show ?thesis using 2 rep[of r] by auto
  next
    case 3
    obtain t where t: "consensus_loop 0 aligned
               \<lparr>consensus_words = [], acc_disagreements = [], high_count = 0,
                medium_count = 0, low_count = 0\<rparr> = Inr t"
      using consensus_loop_returns by blast
    have "\<exists>r. build_consensus cs source engine_res = Inr r \<and>
              disagreements r = acc_disagreements t"
      unfolding build_consensus_voting[OF assms(1) 3 assms(2) t] by simp
    then obtain r where r: "build_consensus cs source engine_res = Inr r"
      and d: "disagreements r = acc_disagreements t" by blast
    have m: "map (\<lambda>d. (wc_position d, wc_readings d)) (disagreements r) =
             filter (\<lambda>(i, readings). 1 < length (unique_readings readings)) (enumerate 0 aligned)"
      using consensus_loop_disagreements[OF t] d by simp
    have "map wc_position (disagreements r) =
            map fst (map (\<lambda>d. (wc_position d, wc_readings d)) (disagreements r))"
      by simp
    also have "\<dots> = map fst (filter (\<lambda>(i, readings). 1 < length (unique_readings readings))
                             (enumerate 0 aligned))"
      unfolding m ..
    finally have s: "sorted_wrt (<) (map wc_position (disagreements r))"
      using enumerate_filter_positions_sorted by metis
    show ?thesis using r m s 3 rep[of r] by auto
  qed
qed

theorem disagreements_and_report_cap_witness:
  "\<exists>r. build_consensus ascii ''page.jpg'' near_identical = Inr r \<and>
       2 \<le> length (filter (\<lambda>(k, v). success v) near_identical) \<and>
       map (\<lambda>d. (wc_position d, wc_readings d)) (disagreements r) =
         [(0, [(''vision'', ''the''), (''docai'', ''the''), (''claude'', ''the''), (''gpt'', ''a'')])] \<and>
       length (rep_disagreements (generate_report (\<lambda>x. x) r)) = 1"
proof -
  have l: "2 \<le> length (filter (\<lambda>(k, v). success v) near_identical)"
    by (simp add: near_identical_def success_def)
  from disagreements_and_report_cap[OF refl refl, of ascii "''page.jpg''" near_identical "\<lambda>x. x"]
  obtain r where r: "build_consensus ascii ''page.jpg'' near_identical = Inr r"
    and n: "length (rep_disagreements (generate_report (\<lambda>x. x) r)) =
             min 50 (length (disagreements r))"
    by blast
  have d: "disagreements r = [\<lparr>wc_position = 0,
              wc_readings = [(''vision'', ''the''), (''docai'', ''the''), (''claude'', ''the''),
                             (''gpt'', ''a'')],
              wc_chosen = Some ''the'', wc_agreement = ''3/4'', wc_confidence = ''high'',
              wc_reason = ''Majority agreement (vision, docai, claude)''\<rparr>]"
    using r unfolding near_identical_result by auto
  show ?thesis using r l n d by simp
qed

text \<open>
  C4 as stated fails for the result itself: two engines that disagree at 80 positions
  give a result with 80 disagreements.
\<close>

theorem disagreements_not_capped:
  "map_sum id (length \<circ> disagreements)
     (build_consensus ascii ''page.jpg'' eighty_disagreements) = Inr 80"
proof -
  have f: "filter (\<lambda>(k, v). success v) eighty_disagreements = eighty_disagreements"
    by (simp add: eighty_disagreements_def success_def)
  have l: "2 \<le> length eighty_disagreements" by (simp add: eighty_disagreements_def)
  have a: "align_texts ascii (map (\<lambda>(k, v). (k, er_text v)) eighty_disagreements) =
             replicate 80 [(''vision'', ''a''), (''docai'', ''b'')]"
    by code_simp
  have e: "filter (\<lambda>(j, readings). 1 < length (unique_readings readings))
             (enumerate 0 (replicate 80 [(''vision'', ''a''), (''docai'', ''b'')])) =
           enumerate 0 (replicate 80 [(''vision'', ''a''), (''docai'', ''b'')])"
    by (auto simp: filter_id_conv in_set_enumerate_eq unique_readings_def)
  obtain t where
    t: "consensus_loop 0 (replicate 80 [(''vision'', ''a''), (''docai'', ''b'')])
               \<lparr>consensus_words = [], acc_disagreements = [], high_count = 0,
                medium_count = 0, low_count = 0\<rparr> = Inr t"
    using consensus_loop_returns by blast
  have b: "map_sum id (length \<circ> disagreements)
              (build_consensus ascii ''page.jpg'' eighty_disagreements) =
            Inr (length (acc_disagreements t))"
    unfolding build_consensus_voting[OF f[symmetric] l a[symmetric] t] by simp
  from consensus_loop_disagreements[OF t]
  have "length (map (\<lambda>d. (wc_position d, wc_readings d)) (acc_disagreements t)) = 80"
    unfolding e by simp
  then show ?thesis using b by simp
qed

text \<open>
  C6 (as amended). When at least two readings succeed and all their texts have the same
  token list, every aligned row is decided high with the reason \<^verbatim>\<open>All n models agree\<close>,
  all positions are counted high, and the overall confidence is 1 if the token list is
  not empty and 0 if it is empty.
\<close>

theorem unanimous_readings:
  assumes "successful = filter (\<lambda>(k, v). success v) engine_res"
      and "2 \<le> length successful"
      and "\<forall>(k, v) \<in> set successful. tokenize cs (er_text v) = toks"
  shows "\<exists>r. build_consensus cs source engine_res = Inr r \<and>
             total_words r = length toks \<and> high_confidence_words r = length toks \<and>
             medium_confidence_words r = 0 \<and> low_confidence_words r = 0 \<and>
             overall_confidence r = (if toks = [] then 0 else 1) \<and>
             (\<forall>row \<in> set (align_texts cs (map (\<lambda>(k, v). (k, er_text v)) successful)).
                \<exists>w. calculate_consensus row =
                  Inr (Some w, str_nat (length successful) @ ''/'' @ str_nat (length successful),
                       ''high'', ''All '' @ str_nat (length successful) @ '' models agree''))"
proof -
  define texts where "texts = map (\<lambda>(k, v). (k, er_text v)) successful"
  define aligned where "aligned = align_texts cs texts"
  have ne: "texts \<noteq> []" using assms(2) by (auto simp: texts_def)
  have len: "length texts = length successful" by (simp add: texts_def)
  have same: "\<forall>(k, v) \<in> set texts. tokenize cs v = toks"
    using assms(3) by (auto simp: texts_def)
  have al: "aligned = map (\<lambda>i. map (\<lambda>(k, v). (k, toks ! i)) texts) [0 ..< length toks]"
    unfolding aligned_def by (rule align_identical[OF ne same])
  obtain k0 v0 where kv: "(k0, v0) \<in> set texts" using ne by (cases texts) auto
  then have toks: "toks = tokenize cs v0" using same by auto
  have rows: "\<exists>w. calculate_consensus row =
                  Inr (Some w, str_nat (length successful) @ ''/'' @ str_nat (length successful),
                       ''high'', ''All '' @ str_nat (length successful) @ '' models agree'')"
    if "row \<in> set aligned" for row
  proof -
    from that obtain i where i: "i < length toks" and row: "row = map (\<lambda>(k, v). (k, toks ! i)) texts"
      unfolding al by auto
    have w: "toks ! i \<noteq> []" using i tokenize_nonempty[of "toks ! i" cs v0] toks by simp
    have r1: "row \<noteq> []" using ne row by simp
    have r2: "\<forall>(k, v) \<in> set row. v = toks ! i" unfolding row by auto
    have "length row = length successful" unfolding row using len by simp
    with unanimous_row[OF r1 r2 w] show ?thesis by auto
  qed
  then have high: "\<forall>row \<in> set aligned. \<exists>c a r. calculate_consensus row = Inr (c, a, ''high'', r)"
    by blast
  obtain t where t: "consensus_loop 0 aligned
               \<lparr>consensus_words = [], acc_disagreements = [], high_count = 0,
                medium_count = 0, low_count = 0\<rparr> = Inr t"
    using consensus_loop_returns by blast
  note b = build_consensus_voting[OF assms(1,2) aligned_def[unfolded texts_def] t, of source]
  from consensus_loop_all_high[OF high, of 0 "\<lparr>consensus_words = [], acc_disagreements = [], high_count = 0,
                medium_count = 0, low_count = 0\<rparr>"] t
  have c: "high_count t = length aligned" "medium_count t = 0" "low_count t = 0" by auto
  have la: "length aligned = length toks" unfolding al by simp
  have rows': "\<forall>row \<in> set (align_texts cs (map (\<lambda>(k, v). (k, er_text v)) successful)).
                \<exists>w. calculate_consensus row =
                  Inr (Some w, str_nat (length successful) @ ''/'' @ str_nat (length successful),
                       ''high'', ''All '' @ str_nat (length successful) @ '' models agree'')"
    using rows unfolding aligned_def texts_def by blast
  show ?thesis
    unfolding b using rows' by (simp add: c la)
qed

theorem unanimous_readings_witness:
  "2 \<le> length (filter (\<lambda>(k, v). success v) three_agree) \<and>
   map (\<lambda>(k, v). tokenize ascii (er_text v)) (filter (\<lambda>(k, v). success v) three_agree) =
     [[''the'', ''cat''], [''the'', ''cat''], [''the'', ''cat'']] \<and>
   (\<exists>r. build_consensus ascii ''page.jpg'' three_agree = Inr r \<and>
        total_words r = 2 \<and> high_confidence_words r = 2 \<and> overall_confidence r = 1)"
proof -
  have f: "filter (\<lambda>(k, v). success v) three_agree = three_agree"
    by (simp add: three_agree_def success_def)
  have t: "map (\<lambda>(k, v). tokenize ascii (er_text v)) three_agree =
     [[''the'', ''cat''], [''the'', ''cat''], [''the'', ''cat'']]"
    by (simp add: three_agree_def ascii_eval)
  have l: "2 \<le> length three_agree" by (simp add: three_agree_def)
  have a: "\<forall>(k, v) \<in> set three_agree. tokenize ascii (er_text v) = [''the'', ''cat'']"
    using t by (simp add: three_agree_def)
  from unanimous_readings[OF f[symmetric] l a, of "''page.jpg''"] f t l
  show ?thesis by auto
qed

text \<open>
  C6 as stated fails when the common token list is empty: there is no position, and the
  overall confidence is 0.
\<close>

theorem blank_page_confidence:
  "map (\<lambda>(k, v). tokenize ascii (er_text v)) (filter (\<lambda>(k, v). success v) blank_page) = [[], []] \<and>
   map_sum id overall_confidence (build_consensus ascii ''blank.jpg'' blank_page) = Inr 0"
  by (simp add: blank_page_def build_eval ascii_eval)

text \<open>
  C3 (as amended). With no client configured the constructor raises
  \<^verbatim>\<open>ValueError("At least one OCR engine must be configured")\<close>, and an engine that was
  constructed has at least one client, so \<^verbatim>\<open>verify\<close> never runs with zero engines. When the
  image exists and no reading succeeds, \<^verbatim>\<open>verify\<close> calls every client and returns a result
  with empty consensus text, confidence 0, all counts 0 and no disagreements; it carries
  the engine results (with their errors) and no error of its own.
\<close>

theorem no_engine_or_no_success:
  "(OCRVerificationEngine_init None None None None enabled_engines
      :: py_error + (string \<times> 'c client) list) =
     Inl (ValueError ''At least one OCR engine must be configured'') \<and>
   (OCRVerificationEngine_init vision_client docai_client claude_client gpt_client
      enabled_engines = Inr clients \<longrightarrow>
    clients \<noteq> [] \<and>
    (path_exists image_path = Inr True \<and>
     list_all (\<lambda>(engine_name, client). \<not> success (run_engine engine_name client image_path))
              clients \<longrightarrow>
       verify (cs :: 'c charset) path_exists clients image_path =
         (map fst clients,
          Inr \<lparr>source_file = image_path, models_used = map fst clients, consensus_text = [],
               overall_confidence = 0, total_words = 0, high_confidence_words = 0,
               medium_confidence_words = 0, low_confidence_words = 0, disagreements = [],
               engine_results =
                 map (\<lambda>(engine_name, client).
                        (engine_name, run_engine engine_name client image_path)) clients\<rparr>)))"
proof -
  have a: "(OCRVerificationEngine_init None None None None enabled_engines
      :: py_error + (string \<times> 'c client) list) =
     Inl (ValueError ''At least one OCR engine must be configured'')"
    by (simp add: OCRVerificationEngine_init_def split: option.splits list.splits)
  have c: "verify cs path_exists clients image_path =
        (map fst clients,
         Inr \<lparr>source_file = image_path, models_used = map fst clients, consensus_text = [],
              overall_confidence = 0, total_words = 0, high_confidence_words = 0,
              medium_confidence_words = 0, low_confidence_words = 0, disagreements = [],
              engine_results =
                map (\<lambda>(engine_name, client).
                       (engine_name, run_engine engine_name client image_path)) clients\<rparr>)"
    if "path_exists image_path = Inr True"
      and "list_all (\<lambda>(engine_name, client). \<not> success (run_engine engine_name client image_path))
             clients"
  proof -
    let ?res = "map (\<lambda>(engine_name, client). (engine_name, run_engine engine_name client image_path))
                 clients"
    have "filter (\<lambda>(k, v). success v) ?res = []"
      using that(2) by (induction clients) auto
    then show ?thesis using that(1) run_all_names[of image_path clients]
      by (simp add: verify_def build_consensus_def Let_def)
  qed
  from a c init_nonempty[of vision_client docai_client claude_client gpt_client enabled_engines clients]
  show ?thesis by blast
qed

theorem no_engine_or_no_success_witness:
  "OCRVerificationEngine_init (Some vision_forbidden) None (Some claude_unauthorized) None None =
     Inr failing_clients \<and>
   scan_dir ''page.jpg'' = Inr True \<and>
   list_all (\<lambda>(engine_name, client). \<not> success (run_engine engine_name client ''page.jpg''))
            failing_clients \<and>
   verify ascii scan_dir failing_clients ''page.jpg'' =
     ([''vision'', ''claude''],
      Inr \<lparr>source_file = ''page.jpg'', models_used = [''vision'', ''claude''],
           consensus_text = [], overall_confidence = 0, total_words = 0,
           high_confidence_words = 0, medium_confidence_words = 0, low_confidence_words = 0,
           disagreements = [],
           engine_results =
             [(''vision'', \<lparr>er_engine = ''vision'', er_text = [], er_confidence = 0,
                            er_error = Some ''HTTP Error 403: Forbidden''\<rparr>),
              (''claude'', \<lparr>er_engine = ''claude'', er_text = [], er_confidence = 0,
                            er_error = Some ''HTTP Error 401: Unauthorized''\<rparr>)]\<rparr>)"
  using no_engine_or_no_success
          [where path_exists = scan_dir and image_path = "''page.jpg''"
             and clients = failing_clients and cs = ascii and enabled_engines = None
             and vision_client = "Some vision_forbidden" and docai_client = None
             and claude_client = "Some claude_unauthorized" and gpt_client = None]
  by (simp add: OCRVerificationEngine_init_def clients_eval success_def scan_dir_def)

text \<open>
  C3 as stated fails twice: with zero engines configured no result is returned (the
  constructor raises), and with zero successful readings the result comes back as an
  ordinary return value, not as an error.
\<close>

theorem no_engines_available_not_surfaced:
  "OCRVerificationEngine_init None None None None (Some [''docai'', ''vision'', ''claude'', ''gpt'']) =
     (Inl (ValueError ''At least one OCR engine must be configured'')
        :: py_error + (string \<times> char client) list) \<and>
   OCRVerificationEngine_init (Some vision_forbidden) None (Some claude_unauthorized) None None =
     Inr failing_clients \<and>
   verify ascii scan_dir failing_clients ''page.jpg'' =
     ([''vision'', ''claude''],
      Inr \<lparr>source_file = ''page.jpg'', models_used = [''vision'', ''claude''],
           consensus_text = [], overall_confidence = 0, total_words = 0,
           high_confidence_words = 0, medium_confidence_words = 0, low_confidence_words = 0,
           disagreements = [],
           engine_results =
             [(''vision'', \<lparr>er_engine = ''vision'', er_text = [], er_confidence = 0,
                            er_error = Some ''HTTP Error 403: Forbidden''\<rparr>),
              (''claude'', \<lparr>er_engine = ''claude'', er_text = [], er_confidence = 0,
                            er_error = Some ''HTTP Error 401: Unauthorized''\<rparr>)]\<rparr>)"
  by (simp add: OCRVerificationEngine_init_def verify_def clients_eval scan_dir_def
                build_consensus_def success_def)

text \<open>
  C7 (as amended). \<^verbatim>\<open>verify\<close> does not look at the extension. When \<^verbatim>\<open>Path.exists\<close>
  answers that the path exists, \<^verbatim>\<open>verify\<close> calls every configured client, in order and
  whatever the extension, and returns a result for that path. No client is called in
  two cases only: the path does not exist (\<^verbatim>\<open>FileNotFoundError\<close>), or \<^verbatim>\<open>Path.exists\<close>
  itself raises, and then \<^verbatim>\<open>verify\<close> raises the same exception.
\<close>

theorem verify_dispatches_any_extension:
  assumes "OCRVerificationEngine_init vision_client docai_client claude_client gpt_client
             enabled_engines = Inr clients"
  shows "(path_exists image_path = Inr True \<longrightarrow>
            (\<exists>r. verify cs path_exists clients image_path = (map fst clients, Inr r) \<and>
                 map fst clients \<noteq> [] \<and> source_file r = image_path \<and>
                 models_used r = map fst clients \<and>
                 engine_results r =
                   map (\<lambda>(engine_name, client).
                          (engine_name, run_engine engine_name client image_path)) clients)) \<and>
         (path_exists image_path = Inr False \<longrightarrow>
            verify cs path_exists clients image_path =
              ([], Inl (FileNotFoundError (''Image not found: '' @ image_path)))) \<and>
         (\<forall>e. path_exists image_path = Inl e \<longrightarrow>
            verify cs path_exists clients image_path = ([], Inl e))"
proof -
  let ?res = "map (\<lambda>(engine_name, client). (engine_name, run_engine engine_name client image_path))
                 clients"
  obtain r where r: "build_consensus cs image_path ?res = Inr r"
    using build_consensus_returns by blast
  have n: "map fst clients \<noteq> []" using init_nonempty[OF assms] by simp
  from build_consensus_frame[OF r] r n run_all_names[of image_path clients] show ?thesis
    by (simp add: verify_def Let_def)
qed

theorem verify_dispatches_any_extension_witness:
  "OCRVerificationEngine_init None (Some docai_rejects_xyz) (Some claude_reads_hello) None
     (Some [''docai'', ''claude'']) = Inr xyz_clients \<and>
   scan_dir ''scan.xyz'' = Inr True \<and>
   (\<exists>r. verify ascii scan_dir xyz_clients ''scan.xyz'' = ([''docai'', ''claude''], Inr r) \<and>
        source_file r = ''scan.xyz'') \<and>
   scan_dir ''gone.jpg'' = Inr False \<and>
   verify ascii scan_dir xyz_clients ''gone.jpg'' =
     ([], Inl (FileNotFoundError ''Image not found: gone.jpg'')) \<and>
   scan_dir ''locked/page.jpg'' = Inl (OSError ''[Errno 13] Permission denied'') \<and>
   verify ascii scan_dir xyz_clients ''locked/page.jpg'' =
     ([], Inl (OSError ''[Errno 13] Permission denied''))"
proof -
  have i: "OCRVerificationEngine_init None (Some docai_rejects_xyz) (Some claude_reads_hello) None
     (Some [''docai'', ''claude'']) = Inr xyz_clients"
    by (simp add: OCRVerificationEngine_init_def xyz_clients_def)
  have e: "scan_dir ''scan.xyz'' = Inr True"
    and n: "scan_dir ''gone.jpg'' = Inr False"
    and x: "scan_dir ''locked/page.jpg'' = Inl (OSError ''[Errno 13] Permission denied'')"
    by (simp_all add: scan_dir_def)
  have m: "map fst xyz_clients = [''docai'', ''claude'']" by (simp add: xyz_clients_def)
  from verify_dispatches_any_extension [OF i, of scan_dir "''scan.xyz''" ascii] e
  obtain r where "verify ascii scan_dir xyz_clients ''scan.xyz'' = (map fst xyz_clients, Inr r)"
    "source_file r = ''scan.xyz''"
    by blast
  then have 1: "\<exists>r. verify ascii scan_dir xyz_clients ''scan.xyz'' =
          ([''docai'', ''claude''], Inr r) \<and> source_file r = ''scan.xyz''"
    unfolding m by blast
  from verify_dispatches_any_extension [OF i, of scan_dir "''gone.jpg''" ascii] n
  have 2: "verify ascii scan_dir xyz_clients ''gone.jpg'' =
     ([], Inl (FileNotFoundError ''Image not found: gone.jpg''))"
    by simp
  from verify_dispatches_any_extension [OF i, of scan_dir "''locked/page.jpg''" ascii] x
  have 3: "verify ascii scan_dir xyz_clients ''locked/page.jpg'' =
     ([], Inl (OSError ''[Errno 13] Permission denied''))"
    by simp
  from i e 1 n 2 x 3 show ?thesis by blast
qed

text \<open>
  C7 as stated fails for \<^verbatim>\<open>scan.xyz\<close>, a suffix in neither table: both clients are called,
  the failure of Document AI is recorded in its engine result, and \<^verbatim>\<open>verify\<close> returns the
  single successful reading.
\<close>

theorem unsupported_extension_is_dispatched:
  "map_of SUPPORTED_TYPES ''.xyz'' = None \<and> map_of media_types ''.xyz'' = None \<and>
   OCRVerificationEngine_init None (Some docai_rejects_xyz) (Some claude_reads_hello) None
     (Some [''docai'', ''claude'']) = Inr xyz_clients \<and>
   verify ascii scan_dir xyz_clients ''scan.xyz'' =
     ([''docai'', ''claude''],
      Inr \<lparr>source_file = ''scan.xyz'', models_used = [''docai'', ''claude''],
           consensus_text = ''hello world'', overall_confidence = 0.9, total_words = 2,
           high_confidence_words = 0, medium_confidence_words = 0, low_confidence_words = 2,
           disagreements = [],
           engine_results =
             [(''docai'', \<lparr>er_engine = ''docai'', er_text = [], er_confidence = 0,
                           er_error = Some ''Unsupported file type: .xyz''\<rparr>),
              (''claude'', \<lparr>er_engine = ''claude'', er_text = ''hello world'',
                            er_confidence = 0.9, er_error = None\<rparr>)]\<rparr>)"
  by (simp add: SUPPORTED_TYPES_def media_types_def OCRVerificationEngine_init_def verify_def
                clients_eval scan_dir_def build_consensus_def success_def index0_def ascii_eval)

end
